theory Spec2Isabelle
  imports Main "HOL-Library.Sublist"
begin

section \<open>Python string operations used by trans.py\<close>

text \<open>
  File names, paths and file contents are Python 2 byte strings, modelled as
  \<^typ>\<open>string\<close> (a list of characters).

  \<^verbatim>\<open>s.replace(old, new)\<close> scans \<open>s\<close> from the left and replaces every
  non-overlapping occurrence of \<open>old\<close>: where \<open>old\<close> starts at the current
  position it emits \<open>new\<close> and continues behind the occurrence, otherwise it copies
  one character. For the empty pattern Python puts \<open>new\<close> before every character
  and at the end.
\<close>

function str_replace :: "string \<Rightarrow> string \<Rightarrow> string \<Rightarrow> string" where
  "str_replace s old new =
     (if old = [] then new @ concat (map (\<lambda>c. c # new) s)
      else if s = [] then []
      else if prefix old s then new @ str_replace (drop (length old) s) old new
      else hd s # str_replace (tl s) old new)"
  by pat_completeness auto
termination
  by (relation "measure (\<lambda>(s, old, new). length s)") auto

declare str_replace.simps [simp del]

text \<open>
  \<^verbatim>\<open>s.split(sep)\<close> for a one-character separator: the pieces between the
  separators, empty pieces included; a string without separator is one piece.
\<close>

fun str_split :: "string \<Rightarrow> char \<Rightarrow> string list" where
  "str_split [] sep = [[]]"
| "str_split (c # cs) sep =
     (if c = sep then [] # str_split cs sep
      else (case str_split cs sep of
              [] \<Rightarrow> [[c]]
            | p # ps \<Rightarrow> (c # p) # ps))"

text \<open>
  \<^verbatim>\<open>s.rfind(c)\<close> for a one-character needle: the highest index at which
  \<open>c\<close> stands, and \<open>-1\<close> when it does not occur. The scan keeps the current
  index and the last hit.
\<close>

fun rfind_from :: "string \<Rightarrow> char \<Rightarrow> int \<Rightarrow> int \<Rightarrow> int" where
  "rfind_from [] c i hit = hit"
| "rfind_from (x # xs) c i hit = rfind_from xs c (i + 1) (if x = c then i else hit)"

definition str_rfind :: "string \<Rightarrow> char \<Rightarrow> int" where
  "str_rfind s c = rfind_from s c 0 (- 1)"

text \<open>
  The slice \<^verbatim>\<open>s[:i]\<close>: a negative \<open>i\<close> counts from the end and is
  clipped at the start of the string, a non-negative one is clipped at its end.
\<close>

definition slice_to :: "string \<Rightarrow> int \<Rightarrow> string" where
  "slice_to s i =
     (if i < 0 then take (nat (max 0 (int (length s) + i))) s
      else take (nat i) s)"

text \<open>
  \<^verbatim>\<open>os.path.join(a, b)\<close> for two components on POSIX: an absolute
  \<open>b\<close> replaces \<open>a\<close>; otherwise a slash is put between them unless \<open>a\<close> is
  empty or ends in one.
\<close>

definition os_path_join :: "string \<Rightarrow> string \<Rightarrow> string" where
  "os_path_join a b =
     (if b \<noteq> [] \<and> hd b = CHR ''/'' then b
      else if a = [] \<or> last a = CHR ''/'' then a @ b
      else a @ ''/'' @ b)"

section \<open>The file system and the process state\<close>

text \<open>
  The target directory holds regular files only: the file system is a map from
  paths to contents. The one failure modelled is a path that names no file, on
  which \<^verbatim>\<open>shutil.move\<close>, \<^verbatim>\<open>os.remove\<close> and
  \<^verbatim>\<open>open\<close> raise (errno \<open>ENOENT\<close>). Nothing in trans.py catches an
  exception, so a raise ends the run; the result then carries the error together
  with the state the run had reached.
\<close>

type_synonym files = "string \<rightharpoonup> string"

datatype error = ENOENT string

record world =
  files :: files
  stdout :: "string list"

definition shutil_move :: "files \<Rightarrow> string \<Rightarrow> string \<Rightarrow> error + files" where
  "shutil_move fs src dst =
     (case fs src of
        None \<Rightarrow> Inl (ENOENT src)
      | Some content \<Rightarrow> Inr ((fs(src := None))(dst \<mapsto> content)))"

definition os_remove :: "files \<Rightarrow> string \<Rightarrow> error + files" where
  "os_remove fs path =
     (case fs path of
        None \<Rightarrow> Inl (ENOENT path)
      | Some content \<Rightarrow> Inr (fs(path := None)))"

definition read_file :: "files \<Rightarrow> string \<Rightarrow> error + string" where
  "read_file fs path =
     (case fs path of
        None \<Rightarrow> Inl (ENOENT path)
      | Some content \<Rightarrow> Inr content)"

section \<open>trans.py\<close>

definition SUPPORTED_LOCALE :: "string list" where
  "SUPPORTED_LOCALE = [''de'', ''es'', ''hr'', ''fi'', ''ro'', ''ru'']"

definition root :: string where
  "root = ''app/script/localization/''"

text \<open>
  \<^verbatim>\<open>remove_country\<close> renames on disk and returns nothing: the caller's
  \<open>filename\<close> stays what the directory listing gave.
\<close>

definition remove_country :: "files \<Rightarrow> string \<Rightarrow> error + files" where
  "remove_country fs filename =
     (let parts = str_split filename CHR ''-'' in
      if length parts = 3 then
        (let source = os_path_join root filename;
             dest = os_path_join root (parts ! 0 @ ''-'' @ parts ! 1 @ ''.coffee'')
         in shutil_move fs source dest)
      else Inr fs)"

definition get_locale :: "string \<Rightarrow> string option" where
  "get_locale filename =
     (let locale = str_replace (str_replace filename ''strings-'' []) ''.coffee'' [] in
      if length locale = 2 then Some locale else None)"

subsection \<open>The content rewrite\<close>

definition newline :: char where
  "newline = CHR 0x0A"

definition generator_line :: string where
  "generator_line = ''#X-Generator: crowdin.com'' @ [newline]"

definition zstr :: string where
  "zstr = ''z.string.''"

definition zstrl :: "string \<Rightarrow> string" where
  "zstrl locale = ''z.string.'' @ locale @ ''.''"

text \<open>Line 71: \<^verbatim>\<open>source.replace(zstrl, zstr).replace(zstr, zstrl)\<close>.\<close>

definition swap_namespace :: "string \<Rightarrow> string \<Rightarrow> string" where
  "swap_namespace locale source =
     str_replace (str_replace source (zstrl locale) zstr) zstr (zstrl locale)"

text \<open>Lines 70 to 73: the substitutions, before the truncation.\<close>

definition substitute :: "string \<Rightarrow> string \<Rightarrow> string" where
  "substitute locale source =
     (let source = str_replace source generator_line [];
          source = swap_namespace locale source;
          source = str_replace source [CHR ''='', CHR 0x27] [CHR '' '', CHR ''='', CHR '' '', CHR 0x27];
          source = str_replace source [CHR 0x5C, CHR '':''] '':''
      in source)"

text \<open>Line 74: \<^verbatim>\<open>source[:source.rfind('\n')]\<close>, applied to the substituted text.\<close>

definition truncate :: "string \<Rightarrow> string" where
  "truncate source = slice_to source (str_rfind source newline)"

definition rewrite_content :: "string \<Rightarrow> string \<Rightarrow> string" where
  "rewrite_content locale source = truncate (substitute locale source)"

subsection \<open>The loop over the directory listing\<close>

definition removing_message :: "string \<Rightarrow> string \<Rightarrow> string" where
  "removing_message locale path =
     ''Removing unsupported locale '' @ [CHR 0x22] @ locale @ [CHR 0x22] @
     '' ('' @ path @ '')'' @ [newline]"

text \<open>
  One iteration, for the entry \<open>filename\<close> of the listing. \<^verbatim>\<open>if locale:\<close>
  holds for every string of length two, so it is the \<open>Some\<close> case.
\<close>

definition loop_body :: "world \<Rightarrow> string \<Rightarrow> (error \<times> world) + world" where
  "loop_body w filename =
     (case remove_country (files w) filename of
        Inl e \<Rightarrow> Inl (e, w)
      | Inr fs1 \<Rightarrow>
          (let w1 = w\<lparr>files := fs1\<rparr> in
           case get_locale filename of
             None \<Rightarrow> Inr w1
           | Some locale \<Rightarrow>
               if locale \<notin> set SUPPORTED_LOCALE then
                 (let file_to_delete = os_path_join root filename;
                      w2 = w1\<lparr>stdout := stdout w1 @ [removing_message locale file_to_delete]\<rparr>
                  in case os_remove (files w2) file_to_delete of
                       Inl e \<Rightarrow> Inl (e, w2)
                     | Inr fs2 \<Rightarrow> Inr (w2\<lparr>files := fs2\<rparr>))
               else
                 (case read_file (files w1) (os_path_join root filename) of
                    Inl e \<Rightarrow> Inl (e, w1)
                  | Inr source \<Rightarrow>
                      Inr (w1\<lparr>files := (files w1)(os_path_join root filename \<mapsto>
                                        rewrite_content locale source)\<rparr>))))"

fun run_loop :: "string list \<Rightarrow> world \<Rightarrow> (error \<times> world) + world" where
  "run_loop [] w = Inr w"
| "run_loop (filename # rest) w =
     (case loop_body w filename of
        Inl e \<Rightarrow> Inl e
      | Inr w' \<Rightarrow> run_loop rest w')"

text \<open>
  The whole script. The two \<^verbatim>\<open>os.system\<close> calls run the translation
  service's command-line client, which is not part of the repository: each is a
  parameter that, given the files, returns an exit status and the files it leaves.
  \<^verbatim>\<open>os.system\<close> returns the status and does not raise; the script drops
  it. \<open>listdir\<close> is the order in which \<^verbatim>\<open>os.listdir(root)\<close> gives the
  entries of the directory, read once before the loop.
\<close>

definition main ::
  "(files \<Rightarrow> int \<times> files) \<Rightarrow> (files \<Rightarrow> int \<times> files) \<Rightarrow> (files \<Rightarrow> string list) \<Rightarrow>
   files \<Rightarrow> (error \<times> world) + world" where
  "main upload download listdir fs =
     (let (status1, fs1) = upload fs;
          (status2, fs2) = download fs1
      in run_loop (listdir fs2) \<lparr>files = fs2, stdout = []\<rparr>)"

section \<open>Properties of the string operations\<close>

lemma str_replace_Nil: "old \<noteq> [] \<Longrightarrow> str_replace [] old new = []"
  by (simp add: str_replace.simps)

lemma str_replace_match:
  "old \<noteq> [] \<Longrightarrow> prefix old s \<Longrightarrow>
   str_replace s old new = new @ str_replace (drop (length old) s) old new"
  by (subst str_replace.simps) auto

lemma str_replace_skip:
  "old \<noteq> [] \<Longrightarrow> \<not> prefix old (c # cs) \<Longrightarrow>
   str_replace (c # cs) old new = c # str_replace cs old new"
  by (subst str_replace.simps) simp

lemma set_str_replace:
  "old \<noteq> [] \<Longrightarrow> set (str_replace s old new) \<subseteq> set s \<union> set new"
proof (induction s old new rule: str_replace.induct)
  case (1 s old new)
  show ?case
  proof (cases "s = []")
    case True
    with 1 show ?thesis by (simp add: str_replace_Nil)
  next
    case False
    then obtain c cs where s: "s = c # cs" by (cases s) auto
    show ?thesis
    proof (cases "prefix old s")
      case True
      have "set (str_replace (drop (length old) s) old new) \<subseteq> set (drop (length old) s) \<union> set new"
        using 1 False True by simp
      moreover have "set (drop (length old) s) \<subseteq> set s" by (rule set_drop_subset)
      ultimately show ?thesis
        using 1(3) True by (auto simp: str_replace_match)
    next
      case np: False
      have "set (str_replace (tl s) old new) \<subseteq> set (tl s) \<union> set new"
        using 1 False np by simp
      then show ?thesis
        using 1(3) np s by (auto simp: str_replace_skip)
    qed
  qed
qed

lemma str_replace_eq_Nil:
  assumes "old \<noteq> []" "new \<noteq> []"
  shows "str_replace s old new = [] \<longleftrightarrow> s = []"
proof (cases s)
  case Nil
  with assms show ?thesis by (simp add: str_replace_Nil)
next
  case (Cons c cs)
  show ?thesis
  proof (cases "prefix old s")
    case True
    with assms(1) have "str_replace s old new = new @ str_replace (drop (length old) s) old new"
      by (rule str_replace_match)
    with assms Cons show ?thesis by simp
  next
    case False
    with assms(1) have "str_replace s old new = c # str_replace cs old new"
      unfolding Cons by (rule str_replace_skip)
    with Cons show ?thesis by simp
  qed
qed

lemma str_replace_absent:
  "c \<in> set old \<Longrightarrow> c \<notin> set s \<Longrightarrow> str_replace s old new = s"
proof (induction s)
  case Nil
  then have "old \<noteq> []" by auto
  then show ?case by (rule str_replace_Nil)
next
  case (Cons x xs)
  have "\<not> prefix old (x # xs)"
  proof
    assume "prefix old (x # xs)"
    then have "set old \<subseteq> set (x # xs)" by (rule set_mono_prefix)
    with Cons.prems show False by auto
  qed
  moreover have "old \<noteq> []" using Cons.prems by auto
  ultimately show ?case using Cons by (simp add: str_replace_skip)
qed

text \<open>
  A word that does not hold the first character of the replacement cannot begin
  inside a replaced occurrence: when the result starts with the word, the text
  started with it. A word that does not hold the first character of the pattern
  is copied as it is: when the text starts with the word, so does the result.
\<close>

lemma prefix_str_replace_reflect:
  "old \<noteq> [] \<Longrightarrow> new \<noteq> [] \<Longrightarrow> hd new \<notin> set q \<Longrightarrow>
   prefix q (str_replace s old new) \<Longrightarrow> prefix q s"
proof (induction q arbitrary: s)
  case Nil
  then show ?case by simp
next
  case (Cons a q)
  show ?case
  proof (cases s)
    case Nil
    with Cons.prems show ?thesis by (simp add: str_replace_Nil)
  next
    case (Cons c cs)
    show ?thesis
    proof (cases "prefix old s")
      case True
      then have "hd (str_replace s old new) = hd new"
        using Cons.prems(1,2) by (simp add: str_replace_match)
      moreover have "hd (str_replace s old new) = a"
        using Cons.prems(4) by (auto simp: prefix_def)
      ultimately show ?thesis using Cons.prems(3) by simp
    next
      case False
      then have "str_replace s old new = c # str_replace cs old new"
        using Cons.prems(1) Cons by (simp add: str_replace_skip)
      with Cons.prems Cons.IH [of cs] Cons show ?thesis by simp
    qed
  qed
qed

lemma prefix_str_replace_keep:
  "old \<noteq> [] \<Longrightarrow> hd old \<notin> set q \<Longrightarrow> prefix q s \<Longrightarrow> prefix q (str_replace s old new)"
proof (induction q arbitrary: s)
  case Nil
  then show ?case by simp
next
  case (Cons a q)
  from Cons.prems(3) obtain cs where s: "s = a # cs" and p: "prefix q cs"
    by (cases s) auto
  have "\<not> prefix old (a # cs)"
    using Cons.prems(1,2) by (cases old) auto
  with Cons.prems(1) have "str_replace (a # cs) old new = a # str_replace cs old new"
    by (rule str_replace_skip)
  moreover have "prefix q (str_replace cs old new)"
    using Cons.IH [of cs] Cons.prems(1,2) p by simp
  ultimately show ?case by (simp add: s)
qed

lemma prefix_str_replace_old:
  assumes zq: "z \<notin> set q" and pn: "prefix (z # q) new"
    and pr: "prefix (z # q) (str_replace s (z # q) new)"
  shows "prefix (z # q) s"
proof (cases "prefix (z # q) s")
  case True
  then show ?thesis .
next
  case False
  show ?thesis
  proof (cases s)
    case Nil
    with pr show ?thesis by (simp add: str_replace_Nil)
  next
    case (Cons c cs)
    with False have "str_replace s (z # q) new = c # str_replace cs (z # q) new"
      by (simp add: str_replace_skip)
    with pr have c: "c = z" and tl: "prefix q (str_replace cs (z # q) new)"
      by auto
    have "new \<noteq> []" "hd new = z" using pn by (auto simp: prefix_def)
    with tl zq have "prefix q cs"
      using prefix_str_replace_reflect [of "z # q" new q cs] by simp
    with c Cons show ?thesis by simp
  qed
qed

text \<open>
  When the replacement is the pattern followed by an extension, and the
  pattern's first character occurs nowhere else in either, every occurrence of
  the pattern in the result is the start of a replacement.
\<close>

lemma occurrences_after_replace:
  assumes old: "old = z # q" and zq: "z \<notin> set q"
    and new: "new = old @ ext" and zext: "z \<notin> set ext"
  shows "prefix old (drop i (str_replace s old new)) \<Longrightarrow>
         prefix new (drop i (str_replace s old new))"
proof (induction s arbitrary: i rule: length_induct)
  case (1 s)
  have ne: "old \<noteq> []" using old by simp
  have pn: "prefix old new" using new by simp
  show ?case
  proof (cases "prefix old s")
    case True
    let ?rest = "str_replace (drop (length old) s) old new"
    have eq: "str_replace s old new = new @ ?rest"
      using ne True by (rule str_replace_match)
    have shorter: "length (drop (length old) s) < length s"
      using True ne by (auto simp: prefix_def)
    consider "i = 0" | "0 < i" "i < length new" | "length new \<le> i" by linarith
    then show ?thesis
    proof cases
      case 1
      then show ?thesis by (simp add: eq)
    next
      case 2
      then have d: "drop i (str_replace s old new) = drop i new @ ?rest" "drop i new \<noteq> []"
        by (simp_all add: eq)
      have "hd (drop i new) = new ! i" using 2 by (simp add: hd_drop_conv_nth)
      moreover have "new ! i \<in> set (q @ ext)"
        using 2 old new by (cases i) (auto simp: nth_append)
      ultimately have "hd (drop i new) \<noteq> z" using zq zext by auto
      moreover have "hd (drop i new) = z"
        using "1.prems" d old by (cases "drop i new") (auto simp: prefix_def)
      ultimately show ?thesis by simp
    next
      case 3
      then have d: "drop i (str_replace s old new) = drop (i - length new) ?rest"
        by (simp add: eq)
      from "1.IH" shorter "1.prems" show ?thesis unfolding d by blast
    qed
  next
    case False
    show ?thesis
    proof (cases s)
      case Nil
      with "1.prems" ne old show ?thesis by (simp add: str_replace_Nil)
    next
      case (Cons c cs)
      have eq: "str_replace s old new = c # str_replace cs old new"
        unfolding Cons using ne False [unfolded Cons] by (rule str_replace_skip)
      show ?thesis
      proof (cases i)
        case 0
        with "1.prems" have "prefix old (str_replace s old new)" by simp
        with zq pn have "prefix old s" unfolding old by (rule prefix_str_replace_old)
        with False show ?thesis by simp
      next
        case (Suc j)
        then have d: "drop i (str_replace s old new) = drop j (str_replace cs old new)"
          by (simp add: eq)
        have "length cs < length s" using Cons by simp
        with "1.IH" "1.prems" show ?thesis unfolding d by blast
      qed
    qed
  qed
qed

text \<open>
  A replacement whose pattern and replacement stay clear of a word \<open>b\<close> keeps
  the property that every occurrence of a prefix \<open>a\<close> of \<open>b\<close> is an occurrence
  of \<open>b\<close>.
\<close>

lemma qualified_after_replace:
  assumes ne: "old \<noteq> []" "new \<noteq> []"
    and a: "a \<noteq> []" "prefix a b"
    and old: "hd old \<notin> set b" and new: "set new \<inter> set b = {}"
    and q: "\<And>i. prefix a (drop i t) \<Longrightarrow> prefix b (drop i t)"
  shows "prefix a (drop i (str_replace t old new)) \<Longrightarrow> prefix b (drop i (str_replace t old new))"
  using q
proof (induction t arbitrary: i rule: length_induct)
  case (1 t)
  note q = "1.prems"(2)
  show ?case
  proof (cases "prefix old t")
    case True
    let ?r = "drop (length old) t"
    have eq: "str_replace t old new = new @ str_replace ?r old new"
      using ne(1) True by (rule str_replace_match)
    have shorter: "length ?r < length t"
      using True ne(1) by (auto simp: prefix_def)
    have qr: "prefix b (drop j ?r)" if "prefix a (drop j ?r)" for j
      using q [of "j + length old"] that by (simp add: add.commute)
    show ?thesis
    proof (cases "i < length new")
      case True
      then have "drop i (str_replace t old new) = drop i new @ str_replace ?r old new"
        and "drop i new \<noteq> []"
        by (simp_all add: eq)
      with "1.prems"(1) a(1) have "hd a = hd (drop i new)"
        by (cases a; cases "drop i new") (auto simp: prefix_def)
      moreover have "hd (drop i new) \<in> set new"
        using True by (simp add: hd_drop_conv_nth)
      moreover have "hd a \<in> set b"
        using a by (cases a) (auto simp: prefix_def)
      ultimately show ?thesis using new by auto
    next
      case False
      then have d: "drop i (str_replace t old new) = drop (i - length new) (str_replace ?r old new)"
        by (simp add: eq)
      from "1.IH" shorter qr "1.prems"(1) show ?thesis unfolding d by blast
    qed
  next
    case False
    show ?thesis
    proof (cases t)
      case Nil
      with "1.prems"(1) a(1) ne(1) show ?thesis by (simp add: str_replace_Nil)
    next
      case (Cons c cs)
      have eq: "str_replace t old new = c # str_replace cs old new"
        unfolding Cons using ne(1) False [unfolded Cons] by (rule str_replace_skip)
      have qcs: "prefix b (drop j cs)" if "prefix a (drop j cs)" for j
        using q [of "Suc j"] that by (simp add: Cons)
      show ?thesis
      proof (cases i)
        case 0
        from a obtain x a' b' where ab: "a = x # a'" "b = x # b'" "prefix a' b'"
          by (cases a; cases b) auto
        have hn: "hd new \<notin> set a'" "hd old \<notin> set b'"
          using new ne(2) old ab set_mono_prefix [OF ab(3)] by (auto simp: disjoint_iff)
        from "1.prems"(1) 0 have "c = x" "prefix a' (str_replace cs old new)"
          by (simp_all add: eq ab)
        then have "prefix a' cs"
          using prefix_str_replace_reflect [OF ne hn(1)] by blast
        with \<open>c = x\<close> have "prefix a (drop 0 t)" by (simp add: ab Cons)
        then have "prefix b (drop 0 t)" by (rule q)
        then have "prefix b' cs" by (simp add: ab Cons)
        then have "prefix b' (str_replace cs old new)"
          using prefix_str_replace_keep [OF ne(1) hn(2)] by blast
        with \<open>c = x\<close> 0 show ?thesis by (simp add: eq ab)
      next
        case (Suc j)
        then have d: "drop i (str_replace t old new) = drop j (str_replace cs old new)"
          by (simp add: eq)
        have "length cs < length t" using Cons by simp
        with "1.IH" qcs "1.prems"(1) show ?thesis unfolding d by blast
      qed
    qed
  qed
qed

subsection \<open>Search from the right and truncation\<close>

lemma rfind_from_absent: "c \<notin> set s \<Longrightarrow> rfind_from s c i hit = hit"
  by (induction s arbitrary: i) auto

lemma str_rfind_absent: "c \<notin> set s \<Longrightarrow> str_rfind s c = - 1"
  by (simp add: str_rfind_def rfind_from_absent)

lemma slice_to_minus_one: "slice_to s (- 1) = butlast s"
  by (cases "s = []") (auto simp: slice_to_def butlast_conv_take nat_diff_distrib' max_def)

lemma truncate_absent: "newline \<notin> set source \<Longrightarrow> truncate source = butlast source"
  by (simp add: truncate_def str_rfind_absent slice_to_minus_one)

lemma rfind_from_last:
  "c \<in> set s \<Longrightarrow>
   \<exists>k < length s. rfind_from s c i hit = i + int k \<and> s ! k = c \<and> c \<notin> set (drop (Suc k) s)"
proof (induction s arbitrary: i hit)
  case Nil
  then show ?case by simp
next
  case (Cons x xs)
  show ?case
  proof (cases "c \<in> set xs")
    case True
    from Cons.IH [OF True, of "i + 1" "if x = c then i else hit"]
    obtain k where "k < length xs"
      "rfind_from xs c (i + 1) (if x = c then i else hit) = i + 1 + int k"
      "xs ! k = c" "c \<notin> set (drop (Suc k) xs)" by blast
    then show ?thesis by (intro exI [of _ "Suc k"]) simp
  next
    case False
    with Cons.prems have "x = c" by simp
    with False show ?thesis by (intro exI [of _ 0]) (simp add: rfind_from_absent)
  qed
qed

lemma truncate_present:
  assumes "newline \<in> set source"
  shows "\<exists>k < length source. truncate source = take k source \<and> source ! k = newline \<and>
           newline \<notin> set (drop (Suc k) source)"
proof -
  from rfind_from_last [OF assms, of 0 "- 1"]
  obtain k where k: "k < length source" "str_rfind source newline = int k"
    "source ! k = newline" "newline \<notin> set (drop (Suc k) source)"
    by (auto simp: str_rfind_def)
  then have "truncate source = take k source"
    by (simp add: truncate_def slice_to_def)
  with k show ?thesis by blast
qed

lemma occurrences_take:
  assumes q: "prefix a (drop i t) \<Longrightarrow> prefix b (drop i t)"
    and a: "a \<noteq> []" and k: "k < length t" "t ! k \<notin> set b"
    and p: "prefix a (drop i (take k t))"
  shows "prefix b (drop i (take k t))"
proof -
  have dt: "drop i (take k t) = take (k - i) (drop i t)" by (simp add: drop_take)
  from p have pa: "prefix a (drop i t)"
    unfolding dt using take_is_prefix prefix_order.trans by blast
  then have pb: "prefix b (drop i t)" by (rule q)
  have "length b \<le> k - i"
  proof (rule ccontr)
    assume "\<not> length b \<le> k - i"
    then have lt: "k - i < length b" by simp
    show False
    proof (cases "i \<le> k")
      case True
      from pb lt have "drop i t ! (k - i) = b ! (k - i)"
        by (auto simp: prefix_def nth_append)
      moreover have "drop i t ! (k - i) = t ! k" using True k(1) by simp
      ultimately have "t ! k \<in> set b" using lt by (metis nth_mem)
      with k(2) show False by simp
    next
      case False
      then have "drop i (take k t) = []" by simp
      with p a show False by simp
    qed
  qed
  with pb show ?thesis unfolding dt by (auto simp: prefix_def)
qed

lemma zstrl_supported:
  "locale \<in> set SUPPORTED_LOCALE \<Longrightarrow> newline \<notin> set (zstrl locale)"
  by (auto simp: SUPPORTED_LOCALE_def zstrl_def newline_def)

lemma newline_substitute:
  assumes "newline \<notin> set source" "newline \<notin> set (zstrl locale)"
  shows "newline \<notin> set (substitute locale source)"
proof -
  let ?s1 = "str_replace source generator_line []"
  let ?s2 = "str_replace ?s1 (zstrl locale) zstr"
  let ?s3 = "str_replace ?s2 zstr (zstrl locale)"
  let ?s4 = "str_replace ?s3 [CHR ''='', CHR 0x27] [CHR '' '', CHR ''='', CHR '' '', CHR 0x27]"
  let ?s5 = "str_replace ?s4 [CHR 0x5C, CHR '':''] '':''"
  have 1: "newline \<notin> set ?s1"
    using set_str_replace [of generator_line source "[]"] assms(1)
    by (auto simp: generator_line_def)
  have 2: "newline \<notin> set ?s2"
    using set_str_replace [of "zstrl locale" ?s1 zstr] 1
    by (auto simp: zstrl_def zstr_def newline_def)
  have 3: "newline \<notin> set ?s3"
    using set_str_replace [of zstr ?s2 "zstrl locale"] 2 assms(2)
    by (auto simp: zstr_def)
  have 4: "newline \<notin> set ?s4"
    using set_str_replace [of "[CHR ''='', CHR 0x27]" ?s3 "[CHR '' '', CHR ''='', CHR '' '', CHR 0x27]"] 3
    by (auto simp: newline_def)
  have 5: "newline \<notin> set ?s5"
    using set_str_replace [of "[CHR 0x5C, CHR '':'']" ?s4 "'':''"] 4
    by (auto simp: newline_def)
  then show ?thesis by (simp add: substitute_def swap_namespace_def)
qed

lemma substitute_nonempty:
  assumes "source \<noteq> []" "newline \<notin> set source"
  shows "substitute locale source \<noteq> []"
proof -
  have "str_replace source generator_line [] = source"
    using assms(2) by (intro str_replace_absent [of newline]) (simp_all add: generator_line_def)
  then show ?thesis
    using assms(1)
    by (simp add: substitute_def swap_namespace_def str_replace_eq_Nil zstr_def zstrl_def)
qed

lemma substitute_no_pattern:
  assumes "CHR ''#'' \<notin> set source" "CHR ''z'' \<notin> set source"
    "CHR ''='' \<notin> set source" "CHR 0x5C \<notin> set source"
  shows "substitute locale source = source"
proof -
  have 1: "str_replace source generator_line [] = source"
    using assms(1) by (intro str_replace_absent [of "CHR ''#''"]) (simp_all add: generator_line_def)
  have 2: "str_replace source (zstrl locale) zstr = source"
    using assms(2) by (intro str_replace_absent [of "CHR ''z''"]) (simp_all add: zstrl_def)
  have 3: "str_replace source zstr (zstrl locale) = source"
    using assms(2) by (intro str_replace_absent [of "CHR ''z''"]) (simp_all add: zstr_def)
  have 4: "str_replace source [CHR ''='', CHR 0x27] [CHR '' '', CHR ''='', CHR '' '', CHR 0x27] = source"
    using assms(3) by (intro str_replace_absent [of "CHR ''=''"]) simp_all
  have 5: "str_replace source [CHR 0x5C, CHR '':''] '':'' = source"
    using assms(4) by (intro str_replace_absent [of "CHR 0x5C"]) simp_all
  show ?thesis
    by (simp add: substitute_def swap_namespace_def 1 2 3 4 5)
qed

subsection \<open>Splitting\<close>

lemma str_split_not_Nil: "str_split s sep \<noteq> []"
  by (induction s) (auto split: list.splits)

lemma str_split_no_sep: "sep \<notin> set a \<Longrightarrow> str_split a sep = [a]"
  by (induction a) auto

lemma str_split_append_sep:
  "sep \<notin> set a \<Longrightarrow> str_split (a @ sep # r) sep = a # str_split r sep"
  by (induction a) auto

lemma length_str_split: "length (str_split s sep) = Suc (count_list s sep)"
  using str_split_not_Nil [of _ sep]
  by (induction s) (auto split: list.splits)

lemma str_split_three:
  assumes "sep \<notin> set a" "sep \<notin> set b" "sep \<notin> set c"
  shows "str_split (a @ [sep] @ b @ [sep] @ c) sep = [a, b, c]"
  using assms by (simp add: str_split_append_sep str_split_no_sep)

lemma str_split_Cons:
  "str_split s sep = p # ps \<Longrightarrow>
   sep \<notin> set p \<and> (if ps = [] then s = p else \<exists>r. s = p @ sep # r \<and> str_split r sep = ps)"
proof (induction s arbitrary: p ps)
  case Nil
  then show ?case by simp
next
  case (Cons x xs)
  show ?case
  proof (cases "x = sep")
    case True
    with Cons.prems show ?thesis by (auto simp: str_split_not_Nil)
  next
    case False
    with Cons.prems obtain p' where p': "str_split xs sep = p' # ps" "p = x # p'"
      by (auto simp: str_split_not_Nil split: list.splits)
    from Cons.IH [OF p'(1)] False p'(2) show ?thesis by auto
  qed
qed

lemma str_split_eq_three:
  assumes "str_split s sep = [a, b, c]"
  shows "s = a @ [sep] @ b @ [sep] @ c \<and> sep \<notin> set a \<and> sep \<notin> set b \<and> sep \<notin> set c"
proof -
  from str_split_Cons [OF assms] obtain r where
    a: "sep \<notin> set a" "s = a @ sep # r" "str_split r sep = [b, c]" by auto
  from str_split_Cons [OF a(3)] obtain r' where
    b: "sep \<notin> set b" "r = b @ sep # r'" "str_split r' sep = [c]" by auto
  from str_split_Cons [OF b(3)] have c: "sep \<notin> set c" "r' = c" by auto
  from a b c show ?thesis by simp
qed

section \<open>The namespace substitutions\<close>

text \<open>
  For a supported locale the character \<open>z\<close> occurs in the qualified token
  only as its first character, so after the second substitution of line 71 every
  occurrence of \<open>z.string.\<close> starts a qualified token, and the first
  substitution undoes the second.
\<close>

lemma zstrl_occurrences:
  assumes "locale \<in> set SUPPORTED_LOCALE"
    and "prefix zstr (drop i (str_replace s zstr (zstrl locale)))"
  shows "prefix (zstrl locale) (drop i (str_replace s zstr (zstrl locale)))"
proof (rule occurrences_after_replace [where z = "CHR ''z''" and q = "''.string.''" and ext = "locale @ ''.''"])
  show "zstr = CHR ''z'' # ''.string.''" by (simp add: zstr_def)
  show "CHR ''z'' \<notin> set ''.string.''" by simp
  show "zstrl locale = zstr @ locale @ ''.''" by (simp add: zstrl_def zstr_def)
  show "CHR ''z'' \<notin> set (locale @ ''.'')"
    using assms(1) by (auto simp: SUPPORTED_LOCALE_def)
  show "prefix zstr (drop i (str_replace s zstr (zstrl locale)))" by (rule assms(2))
qed

lemma str_replace_at_match:
  assumes "old \<noteq> []"
  shows "str_replace (old @ r) old new = new @ str_replace r old new"
proof -
  have "prefix old (old @ r)" by simp
  with assms have "str_replace (old @ r) old new =
      new @ str_replace (drop (length old) (old @ r)) old new"
    by (rule str_replace_match)
  then show ?thesis by simp
qed

lemma str_replace_skip_word:
  "old \<noteq> [] \<Longrightarrow> hd old \<notin> set q \<Longrightarrow>
   str_replace (q @ r) old new = q @ str_replace r old new"
proof (induction q)
  case Nil
  then show ?case by simp
next
  case (Cons x q)
  have "\<not> prefix old (x # q @ r)"
    using Cons.prems by (cases old) auto
  with Cons.prems(1) have "str_replace (x # q @ r) old new = x # str_replace (q @ r) old new"
    by (rule str_replace_skip)
  with Cons show ?case by simp
qed

lemma unqualify_after_qualify:
  assumes "locale \<in> set SUPPORTED_LOCALE"
  shows "str_replace (str_replace s zstr (zstrl locale)) (zstrl locale) zstr = s"
proof (induction s rule: length_induct)
  case (1 s)
  have ne: "zstr \<noteq> []" "zstrl locale \<noteq> []" by (simp_all add: zstr_def zstrl_def)
  have pn: "prefix zstr (zstrl locale)" by (simp add: zstr_def zstrl_def)
  show ?case
  proof (cases "prefix zstr s")
    case True
    then obtain r where s: "s = zstr @ r" by (auto simp: prefix_def)
    have "str_replace s zstr (zstrl locale) = zstrl locale @ str_replace r zstr (zstrl locale)"
      unfolding s using ne(1) by (rule str_replace_at_match)
    then have "str_replace (str_replace s zstr (zstrl locale)) (zstrl locale) zstr =
        zstr @ str_replace (str_replace r zstr (zstrl locale)) (zstrl locale) zstr"
      using str_replace_at_match [OF ne(2), of "str_replace r zstr (zstrl locale)" zstr] by simp
    moreover have "length r < length s" using s ne(1) by simp
    ultimately show ?thesis
      using "1.IH" s by simp
  next
    case False
    show ?thesis
    proof (cases s)
      case Nil
      then show ?thesis using ne by (simp add: str_replace_Nil)
    next
      case (Cons c cs)
      have eq: "str_replace s zstr (zstrl locale) = c # str_replace cs zstr (zstrl locale)"
        unfolding Cons using ne(1) False [unfolded Cons] by (rule str_replace_skip)
      have "\<not> prefix (zstrl locale) (c # str_replace cs zstr (zstrl locale))"
      proof
        assume "prefix (zstrl locale) (c # str_replace cs zstr (zstrl locale))"
        with pn have "prefix zstr (str_replace s zstr (zstrl locale))"
          unfolding eq by (rule prefix_order.trans)
        then have f3: "prefix (CHR ''z'' # ''.string.'') (str_replace s (CHR ''z'' # ''.string.'') (zstrl locale))"
          by (simp add: zstr_def)
        have f1: "CHR ''z'' \<notin> set ''.string.''" by simp
        have f2: "prefix (CHR ''z'' # ''.string.'') (zstrl locale)" by (simp add: zstrl_def)
        have "prefix (CHR ''z'' # ''.string.'') s"
          by (rule prefix_str_replace_old [OF f1 f2 f3])
        with False show False by (simp add: zstr_def)
      qed
      then have "str_replace (c # str_replace cs zstr (zstrl locale)) (zstrl locale) zstr
           = c # str_replace (str_replace cs zstr (zstrl locale)) (zstrl locale) zstr"
        using ne(2) by (rule_tac str_replace_skip)
      moreover have "length cs < length s" using Cons by simp
      ultimately show ?thesis using "1.IH" Cons eq by simp
    qed
  qed
qed

lemma swap_namespace_idem:
  "locale \<in> set SUPPORTED_LOCALE \<Longrightarrow>
   swap_namespace locale (swap_namespace locale source) = swap_namespace locale source"
  by (simp add: swap_namespace_def unqualify_after_qualify)

text \<open>
  Line 71 read from the left of the content: a qualified token is kept, an
  unqualified token is qualified, and a character that starts no token is
  copied. These equations fix the result of the step for every content.
\<close>

lemma swap_namespace_Nil: "swap_namespace locale [] = []"
  by (simp add: swap_namespace_def str_replace_Nil zstr_def zstrl_def)

lemma swap_namespace_qualified_token:
  "swap_namespace locale (zstrl locale @ r) = zstrl locale @ swap_namespace locale r"
proof -
  have ne: "zstr \<noteq> []" "zstrl locale \<noteq> []" by (simp_all add: zstr_def zstrl_def)
  have "str_replace (zstrl locale @ r) (zstrl locale) zstr = zstr @ str_replace r (zstrl locale) zstr"
    using ne(2) by (rule str_replace_at_match)
  then show ?thesis
    using str_replace_at_match [OF ne(1), of "str_replace r (zstrl locale) zstr" "zstrl locale"]
    by (simp add: swap_namespace_def)
qed

lemma swap_namespace_unqualified_token:
  assumes "\<not> prefix (zstrl locale) (zstr @ r)"
  shows "swap_namespace locale (zstr @ r) = zstrl locale @ swap_namespace locale r"
proof -
  have ne: "zstr \<noteq> []" "zstrl locale \<noteq> []" by (simp_all add: zstr_def zstrl_def)
  have z: "zstr @ r = CHR ''z'' # ''.string.'' @ r" by (simp add: zstr_def)
  have "str_replace (CHR ''z'' # ''.string.'' @ r) (zstrl locale) zstr =
        CHR ''z'' # str_replace (''.string.'' @ r) (zstrl locale) zstr"
    using ne(2) assms [unfolded z] by (rule str_replace_skip)
  moreover have "str_replace (''.string.'' @ r) (zstrl locale) zstr =
        ''.string.'' @ str_replace r (zstrl locale) zstr"
    using ne(2) by (rule str_replace_skip_word) (simp add: zstrl_def)
  ultimately have "str_replace (zstr @ r) (zstrl locale) zstr = zstr @ str_replace r (zstrl locale) zstr"
    by (simp add: zstr_def)
  then show ?thesis
    using str_replace_at_match [OF ne(1), of "str_replace r (zstrl locale) zstr" "zstrl locale"]
    by (simp add: swap_namespace_def)
qed

lemma swap_namespace_other:
  assumes "\<not> prefix zstr (c # cs)"
  shows "swap_namespace locale (c # cs) = c # swap_namespace locale cs"
proof -
  let ?u = "str_replace cs (zstrl locale) zstr"
  have ne: "zstr \<noteq> []" "zstrl locale \<noteq> []" by (simp_all add: zstr_def zstrl_def)
  have pn: "prefix zstr (zstrl locale)" by (simp add: zstr_def zstrl_def)
  have "\<not> prefix (zstrl locale) (c # cs)"
    using assms pn prefix_order.trans by blast
  with ne(2) have u: "str_replace (c # cs) (zstrl locale) zstr = c # ?u"
    by (rule str_replace_skip)
  have "\<not> prefix zstr (c # ?u)"
  proof
    assume "prefix zstr (c # ?u)"
    then have "prefix (CHR ''z'' # ''.string.'') (c # ?u)"
      by (simp only: zstr_def)
    then have c: "c = CHR ''z''" and t: "prefix ''.string.'' ?u"
      by auto
    have "hd zstr \<notin> set ''.string.''" by (simp add: zstr_def)
    with ne(2) ne(1) have "prefix ''.string.'' cs"
      using t by (rule prefix_str_replace_reflect)
    with c assms show False by (simp add: zstr_def)
  qed
  with ne(1) have "str_replace (c # ?u) zstr (zstrl locale) = c # str_replace ?u zstr (zstrl locale)"
    by (rule str_replace_skip)
  with u show ?thesis by (simp add: swap_namespace_def)
qed

text \<open>
  The two later substitutions and the truncation at a newline neither make nor
  break a token, so the same holds for the substituted text and, when that text
  holds a newline, for the content written back.
\<close>

lemma substitute_occurrences:
  assumes l: "locale \<in> set SUPPORTED_LOCALE"
    and p: "prefix zstr (drop i (substitute locale source))"
  shows "prefix (zstrl locale) (drop i (substitute locale source))"
proof -
  let ?s1 = "str_replace source generator_line []"
  let ?s3 = "swap_namespace locale ?s1"
  let ?s4 = "str_replace ?s3 [CHR ''='', CHR 0x27] [CHR '' '', CHR ''='', CHR '' '', CHR 0x27]"
  let ?s5 = "str_replace ?s4 [CHR 0x5C, CHR '':''] '':''"
  have z: "zstr \<noteq> []" "prefix zstr (zstrl locale)"
    by (simp_all add: zstr_def zstrl_def)
  have 3: "prefix (zstrl locale) (drop j ?s3)" if "prefix zstr (drop j ?s3)" for j
    using l that unfolding swap_namespace_def by (rule zstrl_occurrences)
  have 4: "prefix (zstrl locale) (drop j ?s4)" if "prefix zstr (drop j ?s4)" for j
  proof (rule qualified_after_replace [OF _ _ z _ _ 3 that])
    show "hd [CHR ''='', CHR 0x27] \<notin> set (zstrl locale)"
      using l by (auto simp: SUPPORTED_LOCALE_def zstrl_def)
    show "set [CHR '' '', CHR ''='', CHR '' '', CHR 0x27] \<inter> set (zstrl locale) = {}"
      using l by (auto simp: SUPPORTED_LOCALE_def zstrl_def)
  qed simp_all
  have 5: "prefix (zstrl locale) (drop j ?s5)" if "prefix zstr (drop j ?s5)" for j
  proof (rule qualified_after_replace [OF _ _ z _ _ 4 that])
    show "hd [CHR 0x5C, CHR '':''] \<notin> set (zstrl locale)"
      using l by (auto simp: SUPPORTED_LOCALE_def zstrl_def)
    show "set '':'' \<inter> set (zstrl locale) = {}"
      using l by (auto simp: SUPPORTED_LOCALE_def zstrl_def)
  qed simp_all
  have "substitute locale source = ?s5" by (simp add: substitute_def)
  with p 5 show ?thesis by simp
qed

lemma rewrite_content_occurrences:
  assumes l: "locale \<in> set SUPPORTED_LOCALE"
    and n: "newline \<in> set (substitute locale source)"
    and p: "prefix zstr (drop i (rewrite_content locale source))"
  shows "prefix (zstrl locale) (drop i (rewrite_content locale source))"
proof -
  let ?t = "substitute locale source"
  from truncate_present [OF n] obtain k where
    k: "k < length ?t" "truncate ?t = take k ?t" "?t ! k = newline" by blast
  have nb: "?t ! k \<notin> set (zstrl locale)"
    using l by (simp add: k(3) zstrl_supported)
  have q: "prefix zstr (drop i ?t) \<Longrightarrow> prefix (zstrl locale) (drop i ?t)"
    using l by (rule substitute_occurrences)
  have "zstr \<noteq> []" by (simp add: zstr_def)
  from occurrences_take [OF q this k(1) nb] p show ?thesis
    by (simp add: rewrite_content_def k(2))
qed

text \<open>
  Claim C1, as amended. Line 71 does not swap the two forms of the namespace
  token; it brings every token to the qualified form. For every locale and
  every content, reading the content from the left: a qualified token
  \<open>z.string.<locale>.\<close> is kept as it is, a \<open>z.string.\<close> that does not start
  a qualified token is replaced by \<open>z.string.<locale>.\<close>, every character that
  starts no \<open>z.string.\<close> is copied, and the empty content stays empty. So for
  every supported locale each occurrence of \<open>z.string.\<close> after the step is
  followed by \<open><locale>.\<close>; the same holds for the content written back
  whenever the substituted text holds a newline, at which it is cut. For the
  locale \<open>de\<close> and the content
  \<^verbatim>\<open>#X-Generator: crowdin.com\nz.string.hello = 1\nz.string.de.world = 2\n\<close>
  the file is rewritten to
  \<^verbatim>\<open>z.string.de.hello = 1\nz.string.de.world = 2\<close>: the generator line is
  removed, \<open>z.string.hello\<close> becomes \<open>z.string.de.hello\<close>,
  \<open>z.string.de.world\<close> stays as it is, and the text from the last newline on is
  cut.
\<close>

theorem swap_namespace_qualifies:
  "swap_namespace locale [] = [] \<and>
   swap_namespace locale (zstrl locale @ r) = zstrl locale @ swap_namespace locale r \<and>
   (\<not> prefix (zstrl locale) (zstr @ r) \<longrightarrow>
      swap_namespace locale (zstr @ r) = zstrl locale @ swap_namespace locale r) \<and>
   (\<not> prefix zstr (c # cs) \<longrightarrow>
      swap_namespace locale (c # cs) = c # swap_namespace locale cs) \<and>
   (locale \<in> set SUPPORTED_LOCALE \<and> prefix zstr (drop i (swap_namespace locale source)) \<longrightarrow>
      prefix (zstrl locale) (drop i (swap_namespace locale source))) \<and>
   (locale \<in> set SUPPORTED_LOCALE \<and> newline \<in> set (substitute locale source) \<and>
    prefix zstr (drop i (rewrite_content locale source)) \<longrightarrow>
      prefix (zstrl locale) (drop i (rewrite_content locale source))) \<and>
   rewrite_content ''de''
     ''#X-Generator: crowdin.com\<newline>z.string.hello = 1\<newline>z.string.de.world = 2\<newline>'' =
     ''z.string.de.hello = 1\<newline>z.string.de.world = 2''"
proof -
  have 1: "swap_namespace locale [] = []"
    by (rule swap_namespace_Nil)
  have 2: "swap_namespace locale (zstrl locale @ r) = zstrl locale @ swap_namespace locale r"
    by (rule swap_namespace_qualified_token)
  have 3: "swap_namespace locale (zstr @ r) = zstrl locale @ swap_namespace locale r"
    if "\<not> prefix (zstrl locale) (zstr @ r)"
    using that by (rule swap_namespace_unqualified_token)
  have 4: "swap_namespace locale (c # cs) = c # swap_namespace locale cs"
    if "\<not> prefix zstr (c # cs)"
    using that by (rule swap_namespace_other)
  have 5: "prefix (zstrl locale) (drop i (swap_namespace locale source))"
    if "locale \<in> set SUPPORTED_LOCALE" "prefix zstr (drop i (swap_namespace locale source))"
    using that unfolding swap_namespace_def by (rule zstrl_occurrences)
  have 6: "prefix (zstrl locale) (drop i (rewrite_content locale source))"
    if "locale \<in> set SUPPORTED_LOCALE" "newline \<in> set (substitute locale source)"
      "prefix zstr (drop i (rewrite_content locale source))"
    using that by (rule rewrite_content_occurrences)
  have 7: "rewrite_content ''de''
     ''#X-Generator: crowdin.com\<newline>z.string.hello = 1\<newline>z.string.de.world = 2\<newline>'' =
     ''z.string.de.hello = 1\<newline>z.string.de.world = 2''"
    by code_simp
  from 1 2 3 4 5 6 7 show ?thesis by blast
qed

theorem swap_namespace_qualifies_witness:
  "''de'' \<in> set SUPPORTED_LOCALE \<and>
   \<not> prefix (zstrl ''de'') (zstr @ ''hello'') \<and>
   swap_namespace ''de'' (zstr @ ''hello'') = zstrl ''de'' @ swap_namespace ''de'' ''hello'' \<and>
   \<not> prefix zstr (CHR ''a'' # '' z.string.y'') \<and>
   swap_namespace ''de'' (CHR ''a'' # '' z.string.y'') = CHR ''a'' # swap_namespace ''de'' '' z.string.y'' \<and>
   swap_namespace ''de'' ''a z.string.de.x z.string.y'' = ''a z.string.de.x z.string.de.y'' \<and>
   prefix zstr (drop 16 (swap_namespace ''de'' ''a z.string.de.x z.string.y'')) \<and>
   prefix (zstrl ''de'') (drop 16 (swap_namespace ''de'' ''a z.string.de.x z.string.y'')) \<and>
   newline \<in> set (substitute ''de'' ''z.string.hello = 1\<newline>z.string.de.world = 2\<newline>'') \<and>
   prefix zstr (drop 22 (rewrite_content ''de'' ''z.string.hello = 1\<newline>z.string.de.world = 2\<newline>'')) \<and>
   prefix (zstrl ''de'') (drop 22 (rewrite_content ''de'' ''z.string.hello = 1\<newline>z.string.de.world = 2\<newline>''))"
proof -
  let ?c = "''z.string.hello = 1\<newline>z.string.de.world = 2\<newline>''"
  let ?d = "''a z.string.de.x z.string.y''"
  have l: "''de'' \<in> set SUPPORTED_LOCALE" by (simp add: SUPPORTED_LOCALE_def)
  have u: "\<not> prefix (zstrl ''de'') (zstr @ ''hello'')" by (simp add: zstr_def zstrl_def)
  have o: "\<not> prefix zstr (CHR ''a'' # '' z.string.y'')" by (simp add: zstr_def)
  from swap_namespace_qualifies [of "''de''" "''hello''"] u
  have t3: "swap_namespace ''de'' (zstr @ ''hello'') = zstrl ''de'' @ swap_namespace ''de'' ''hello''"
    by blast
  from swap_namespace_qualifies [of "''de''" _ "CHR ''a''" "'' z.string.y''"] o
  have t4: "swap_namespace ''de'' (CHR ''a'' # '' z.string.y'') =
            CHR ''a'' # swap_namespace ''de'' '' z.string.y''"
    by blast
  have e: "swap_namespace ''de'' ?d = ''a z.string.de.x z.string.de.y''"
    by code_simp
  have p16: "prefix zstr (drop 16 (swap_namespace ''de'' ?d))"
    unfolding e by (simp add: zstr_def)
  from swap_namespace_qualifies [of "''de''" _ _ _ 16 ?d] l p16
  have q16: "prefix (zstrl ''de'') (drop 16 (swap_namespace ''de'' ?d))"
    by blast
  have s: "substitute ''de'' ?c = ''z.string.de.hello = 1\<newline>z.string.de.world = 2\<newline>''"
    by code_simp
  have n: "newline \<in> set (substitute ''de'' ?c)"
    unfolding s by (simp add: newline_def)
  have r: "rewrite_content ''de'' ?c = ''z.string.de.hello = 1\<newline>z.string.de.world = 2''"
    by code_simp
  have p22: "prefix zstr (drop 22 (rewrite_content ''de'' ?c))"
    unfolding r by (simp add: zstr_def)
  from swap_namespace_qualifies [of "''de''" _ _ _ 22 ?c] l n p22
  have q22: "prefix (zstrl ''de'') (drop 22 (rewrite_content ''de'' ?c))"
    by blast
  from l u t3 o t4 e p16 q16 n p22 q22 show ?thesis by blast
qed

text \<open>
  The claim as first stated fails on its own example: the output does not hold
  \<open>z.string.world\<close>, and a qualified token is not unqualified by line 71.
\<close>

theorem full_swap_counterexample:
  "rewrite_content ''de''
     ''#X-Generator: crowdin.com\<newline>z.string.hello = 1\<newline>z.string.de.world = 2\<newline>'' \<noteq>
     ''z.string.de.hello = 1\<newline>z.string.world = 2'' \<and>
   swap_namespace ''de'' ''z.string.de.world'' = ''z.string.de.world'' \<and>
   swap_namespace ''de'' ''z.string.de.world'' \<noteq> ''z.string.world''"
  by code_simp

text \<open>
  Claim C8. The namespace step of line 71 is not an involution: for the
  supported locale \<open>de\<close> and the content \<open>z.string.hello\<close>, applying the two
  substitutions (qualified to unqualified, then unqualified to qualified) twice
  does not give the original content back.
\<close>

theorem swap_namespace_not_involution:
  "\<exists>locale source. locale \<in> set SUPPORTED_LOCALE \<and>
     swap_namespace locale (swap_namespace locale source) \<noteq> source"
proof (intro exI conjI)
  show "''de'' \<in> set SUPPORTED_LOCALE" by (simp add: SUPPORTED_LOCALE_def)
  show "swap_namespace ''de'' (swap_namespace ''de'' ''z.string.hello'') \<noteq> ''z.string.hello''"
    by code_simp
qed

section \<open>The truncation at the last newline\<close>

text \<open>
  Claim C10. When the text left by the substitutions holds no newline, the
  search gives \<open>-1\<close> and the slice drops the last character: the content
  written back is the substituted text without its last character. For a
  supported locale, a non-empty file content without newline stays non-empty and
  without newline under the substitutions, so what is written is one character
  shorter than the substituted text. A content without newline that holds none
  of \<open>#\<close>, \<open>z\<close>, \<open>=\<close> and the backslash is left alone by the substitutions
  and is written back without its last character. The empty content stays
  empty.
\<close>

theorem truncation_without_newline:
  "(newline \<notin> set (substitute locale source) \<longrightarrow>
      rewrite_content locale source = butlast (substitute locale source)) \<and>
   (locale \<in> set SUPPORTED_LOCALE \<and> source \<noteq> [] \<and> newline \<notin> set source \<longrightarrow>
      newline \<notin> set (substitute locale source) \<and>
      substitute locale source \<noteq> [] \<and>
      Suc (length (rewrite_content locale source)) = length (substitute locale source)) \<and>
   (newline \<notin> set source \<and> CHR ''#'' \<notin> set source \<and> CHR ''z'' \<notin> set source \<and>
    CHR ''='' \<notin> set source \<and> CHR 0x5C \<notin> set source \<longrightarrow>
      rewrite_content locale source = butlast source) \<and>
   rewrite_content locale [] = []"
proof -
  have 1: "rewrite_content locale source = butlast (substitute locale source)"
    if "newline \<notin> set (substitute locale source)"
    using that by (simp add: rewrite_content_def truncate_absent)
  have 2: "newline \<notin> set (substitute locale source) \<and>
      substitute locale source \<noteq> [] \<and>
      Suc (length (rewrite_content locale source)) = length (substitute locale source)"
    if a: "locale \<in> set SUPPORTED_LOCALE \<and> source \<noteq> [] \<and> newline \<notin> set source"
  proof -
    from a have n: "newline \<notin> set (substitute locale source)"
      by (simp add: newline_substitute zstrl_supported)
    from a have e: "substitute locale source \<noteq> []"
      by (simp add: substitute_nonempty)
    from n e show ?thesis by (simp add: 1)
  qed
  have 3: "rewrite_content locale source = butlast source"
    if "newline \<notin> set source \<and> CHR ''#'' \<notin> set source \<and> CHR ''z'' \<notin> set source \<and>
        CHR ''='' \<notin> set source \<and> CHR 0x5C \<notin> set source"
    using that by (simp add: rewrite_content_def substitute_no_pattern truncate_absent)
  have 4: "rewrite_content locale [] = []"
    by code_simp
  from 1 2 3 4 show ?thesis by blast
qed

theorem truncation_without_newline_witness:
  "''de'' \<in> set SUPPORTED_LOCALE \<and> ''z.string.title'' \<noteq> [] \<and> newline \<notin> set ''z.string.title'' \<and>
   newline \<notin> set (substitute ''de'' ''z.string.title'') \<and>
   substitute ''de'' ''z.string.title'' = ''z.string.de.title'' \<and>
   rewrite_content ''de'' ''z.string.title'' = ''z.string.de.titl'' \<and>
   rewrite_content ''de'' ''hello'' = ''hell''"
proof -
  have h: "''de'' \<in> set SUPPORTED_LOCALE \<and> ''z.string.title'' \<noteq> [] \<and> newline \<notin> set ''z.string.title''"
    by (simp add: SUPPORTED_LOCALE_def newline_def)
  have s: "substitute ''de'' ''z.string.title'' = ''z.string.de.title''"
    by code_simp
  from truncation_without_newline [of "''de''" "''z.string.title''"] h
  have "newline \<notin> set (substitute ''de'' ''z.string.title'')"
    and "rewrite_content ''de'' ''z.string.title'' = butlast (substitute ''de'' ''z.string.title'')"
    by blast+
  moreover have "newline \<notin> set ''hello'' \<and> CHR ''#'' \<notin> set ''hello'' \<and> CHR ''z'' \<notin> set ''hello'' \<and>
    CHR ''='' \<notin> set ''hello'' \<and> CHR 0x5C \<notin> set ''hello''"
    by (simp add: newline_def)
  with truncation_without_newline [of "''de''" "''hello''"]
  have "rewrite_content ''de'' ''hello'' = butlast ''hello''" by blast
  ultimately show ?thesis using h s by simp
qed

section \<open>Country-suffix stripping\<close>

lemma shutil_move_present:
  "fs src = Some content \<Longrightarrow> shutil_move fs src dst = Inr ((fs(src := None))(dst \<mapsto> content))"
  by (simp add: shutil_move_def)

lemma remove_country_three:
  assumes "str_split filename CHR ''-'' = [a, b, c]"
    and "fs (os_path_join root filename) = Some content"
  shows "remove_country fs filename =
     Inr ((fs(os_path_join root filename := None))
            (os_path_join root (a @ ''-'' @ b @ ''.coffee'') \<mapsto> content))"
  using assms by (simp add: remove_country_def shutil_move_present)

lemma remove_country_other:
  "length (str_split filename CHR ''-'') \<noteq> 3 \<Longrightarrow> remove_country fs filename = Inr fs"
  by (simp add: remove_country_def)

text \<open>
  Claim C3, as amended. A file whose name splits on \<open>-\<close> into exactly three
  components \<open>a\<close>, \<open>b\<close>, \<open>c\<close> (so the name is \<open>a-b-c\<close>) is renamed to
  \<open>a-b.coffee\<close>: the first two components are kept, the whole third component
  (country and whatever extension the name had) is dropped and the fixed
  extension \<open>.coffee\<close> is appended. A name with any other number of components,
  two in particular, is not renamed. So \<open>strings-de-CH.coffee\<close> becomes
  \<open>strings-de.coffee\<close>.
\<close>

theorem remove_country_renames:
  "(str_split filename CHR ''-'' = [a, b, c] \<and> fs (os_path_join root filename) = Some content \<longrightarrow>
      filename = a @ ''-'' @ b @ ''-'' @ c \<and>
      remove_country fs filename =
        Inr ((fs(os_path_join root filename := None))
               (os_path_join root (a @ ''-'' @ b @ ''.coffee'') \<mapsto> content))) \<and>
   (length (str_split filename CHR ''-'') \<noteq> 3 \<longrightarrow> remove_country fs filename = Inr fs) \<and>
   remove_country [''app/script/localization/strings-de-CH.coffee'' \<mapsto> content]
       ''strings-de-CH.coffee'' =
     Inr [''app/script/localization/strings-de.coffee'' \<mapsto> content]"
proof -
  have 1: "filename = a @ ''-'' @ b @ ''-'' @ c"
    if "str_split filename CHR ''-'' = [a, b, c]"
    using str_split_eq_three [OF that] by simp
  have 3: "remove_country [''app/script/localization/strings-de-CH.coffee'' \<mapsto> content]
       ''strings-de-CH.coffee'' =
     Inr [''app/script/localization/strings-de.coffee'' \<mapsto> content]"
    by (simp add: remove_country_def shutil_move_def os_path_join_def root_def)
  from 1 3 show ?thesis
    by (auto simp: remove_country_three remove_country_other)
qed

theorem remove_country_renames_witness:
  "str_split ''strings-pt-BR.coffee'' CHR ''-'' = [''strings'', ''pt'', ''BR.coffee''] \<and>
   remove_country [''app/script/localization/strings-pt-BR.coffee'' \<mapsto> ''x''] ''strings-pt-BR.coffee'' =
     Inr [''app/script/localization/strings-pt.coffee'' \<mapsto> ''x''] \<and>
   length (str_split ''strings-pt.coffee'' CHR ''-'') \<noteq> 3 \<and>
   remove_country [''app/script/localization/strings-pt.coffee'' \<mapsto> ''x''] ''strings-pt.coffee'' =
     Inr [''app/script/localization/strings-pt.coffee'' \<mapsto> ''x'']"
proof -
  let ?fs = "[''app/script/localization/strings-pt-BR.coffee'' \<mapsto> ''x'']"
  have s: "str_split ''strings-pt-BR.coffee'' CHR ''-'' = [''strings'', ''pt'', ''BR.coffee'']"
    by simp
  have p: "?fs (os_path_join root ''strings-pt-BR.coffee'') = Some ''x''"
    by (simp add: os_path_join_def root_def)
  have n: "length (str_split ''strings-pt.coffee'' CHR ''-'') \<noteq> 3"
    by simp
  from remove_country_renames [of "''strings-pt-BR.coffee''" "''strings''" "''pt''" "''BR.coffee''" ?fs "''x''"] s p
  have "remove_country ?fs ''strings-pt-BR.coffee'' =
        Inr ((?fs(os_path_join root ''strings-pt-BR.coffee'' := None))
               (os_path_join root (''strings'' @ ''-'' @ ''pt'' @ ''.coffee'') \<mapsto> ''x''))"
    by blast
  then have 1: "remove_country ?fs ''strings-pt-BR.coffee'' =
     Inr [''app/script/localization/strings-pt.coffee'' \<mapsto> ''x'']"
    by (simp add: os_path_join_def root_def)
  from remove_country_renames [of "''strings-pt.coffee''" _ _ _ "[''app/script/localization/strings-pt.coffee'' \<mapsto> ''x'']"] n
  have 2: "remove_country [''app/script/localization/strings-pt.coffee'' \<mapsto> ''x''] ''strings-pt.coffee'' =
     Inr [''app/script/localization/strings-pt.coffee'' \<mapsto> ''x'']"
    by blast
  from s 1 n 2 show ?thesis by blast
qed

text \<open>
  The extension of the name is not kept: \<open>strings-de-CH.txt\<close> becomes
  \<open>strings-de.coffee\<close>, not \<open>strings-de.txt\<close>.
\<close>

theorem extension_kept_counterexample:
  "remove_country [''app/script/localization/strings-de-CH.txt'' \<mapsto> ''x''] ''strings-de-CH.txt'' =
     Inr [''app/script/localization/strings-de.coffee'' \<mapsto> ''x''] \<and>
   remove_country [''app/script/localization/strings-de-CH.txt'' \<mapsto> ''x''] ''strings-de-CH.txt'' \<noteq>
     Inr [''app/script/localization/strings-de.txt'' \<mapsto> ''x'']"
proof -
  have 1: "remove_country [''app/script/localization/strings-de-CH.txt'' \<mapsto> ''x''] ''strings-de-CH.txt'' =
     Inr [''app/script/localization/strings-de.coffee'' \<mapsto> ''x'']"
    by (simp add: remove_country_def shutil_move_def os_path_join_def root_def)
  have "[''app/script/localization/strings-de.coffee'' \<mapsto> ''x''] ''app/script/localization/strings-de.txt'' \<noteq>
        [''app/script/localization/strings-de.txt'' \<mapsto> ''x''] ''app/script/localization/strings-de.txt''"
    by simp
  then have "[''app/script/localization/strings-de.coffee'' \<mapsto> ''x''] \<noteq>
        [''app/script/localization/strings-de.txt'' \<mapsto> ''x'']"
    by metis
  with 1 show ?thesis by simp
qed

section \<open>One iteration of the loop\<close>

lemma path_of_entry:
  "b = [] \<or> hd b \<noteq> CHR ''/'' \<Longrightarrow> os_path_join root b = ''app/script/localization/'' @ b"
  by (auto simp: os_path_join_def root_def)

lemma loop_body_not_locale:
  "remove_country (files w) filename = Inr fs1 \<Longrightarrow> get_locale filename = None \<Longrightarrow>
   loop_body w filename = Inr (w\<lparr>files := fs1\<rparr>)"
  by (simp add: loop_body_def)

text \<open>
  An entry whose name does not split into three components is still on disk
  under its listed name when its locale is looked at; then an unsupported locale
  deletes the file and writes one message, and a supported one rewrites the
  content in place and writes nothing.
\<close>

lemma loop_body_unsupported:
  assumes "length (str_split filename CHR ''-'') \<noteq> 3"
    and "files w (os_path_join root filename) = Some content"
    and "get_locale filename = Some locale"
    and "locale \<notin> set SUPPORTED_LOCALE"
  shows "loop_body w filename =
     Inr (w\<lparr>files := (files w)(os_path_join root filename := None),
            stdout := stdout w @ [removing_message locale (os_path_join root filename)]\<rparr>)"
  using assms by (simp add: loop_body_def remove_country_other os_remove_def Let_def)


text \<open>
  An entry with three components has been renamed when its locale is looked at,
  while \<open>filename\<close> is still the listed name. When that name gives a locale,
  \<^verbatim>\<open>os.remove\<close> or \<^verbatim>\<open>open\<close> is called on the path the file
  has just left, and the run ends there.
\<close>

lemma loop_body_stale_path:
  assumes "str_split filename CHR ''-'' = [a, b, c]"
    and "files w (os_path_join root filename) = Some content"
    and "get_locale filename = Some locale"
  shows "loop_body w filename =
     Inl (ENOENT (os_path_join root filename),
          w\<lparr>files := (files w)(os_path_join root filename := None,
                                 os_path_join root (a @ ''-'' @ b @ ''.coffee'') \<mapsto> content),
            stdout := (if locale \<in> set SUPPORTED_LOCALE then stdout w
                       else stdout w @ [removing_message locale (os_path_join root filename)])\<rparr>)"
proof -
  have name: "filename = a @ ''-'' @ b @ ''-'' @ c"
    using str_split_eq_three [OF assms(1)] by simp
  have "a @ ''-'' @ b @ ''-'' @ c \<noteq> a @ ''-'' @ b @ ''.coffee''" by simp
  moreover have "hd (a @ ''-'' @ b @ ''-'' @ c) = hd (a @ ''-'' @ b @ ''.coffee'')"
    by (cases a) simp_all
  ultimately have ne: "os_path_join root filename \<noteq> os_path_join root (a @ ''-'' @ b @ ''.coffee'')"
    unfolding name by (simp add: os_path_join_def root_def)
  have rc: "remove_country (files w) filename =
     Inr ((files w)(os_path_join root filename := None,
                    os_path_join root (a @ ''-'' @ b @ ''.coffee'') \<mapsto> content))"
    using assms(1,2) by (rule remove_country_three)
  show ?thesis
    using ne assms(3) by (simp add: loop_body_def rc os_remove_def read_file_def Let_def)
qed



text \<open>
  Claim C2, evaluated on the code. The locale is derived from the name the
  listing gave, not from the name after the renaming: \<open>strings-de-CH.coffee\<close>
  gives no locale, although the renamed \<open>strings-de.coffee\<close> would give
  \<open>de\<close>. A directory that holds only \<open>strings-de-CH.coffee\<close> ends with
  \<open>strings-de.coffee\<close> holding the downloaded content unchanged, where the
  rewrite for \<open>de\<close> would have qualified the token.
\<close>

theorem renamed_entry_keeps_old_name:
  "get_locale ''strings-de-CH.coffee'' = None \<and>
   get_locale ''strings-de.coffee'' = Some ''de'' \<and>
   main (\<lambda>fs. (0, fs)) (\<lambda>fs. (0, fs)) (\<lambda>fs. [''strings-de-CH.coffee''])
        [''app/script/localization/strings-de-CH.coffee'' \<mapsto> ''z.string.hello = 1\<newline>''] =
   Inr \<lparr>files = [''app/script/localization/strings-de.coffee'' \<mapsto> ''z.string.hello = 1\<newline>''],
        stdout = []\<rparr> \<and>
   rewrite_content ''de'' ''z.string.hello = 1\<newline>'' = ''z.string.de.hello = 1''"
proof -
  have l: "get_locale ''strings-de-CH.coffee'' = None" by code_simp
  have l': "get_locale ''strings-de.coffee'' = Some ''de''" by code_simp
  have r: "rewrite_content ''de'' ''z.string.hello = 1\<newline>'' = ''z.string.de.hello = 1''"
    by code_simp
  have m: "main (\<lambda>fs. (0, fs)) (\<lambda>fs. (0, fs)) (\<lambda>fs. [''strings-de-CH.coffee''])
        [''app/script/localization/strings-de-CH.coffee'' \<mapsto> ''z.string.hello = 1\<newline>''] =
   Inr \<lparr>files = [''app/script/localization/strings-de.coffee'' \<mapsto> ''z.string.hello = 1\<newline>''],
        stdout = []\<rparr>"
    by (simp add: main_def loop_body_def l remove_country_def shutil_move_def path_of_entry)
  from l l' m r show ?thesis by blast
qed

text \<open>
  Claim C4, evaluated on the code. \<open>strings-fr-FR.coffee\<close>, whose locale after
  the renaming is the unsupported \<open>fr\<close>, is renamed to \<open>strings-fr.coffee\<close> and
  neither deleted nor reported. \<open>strings-strings-fr\<close>, whose listed name gives
  the unsupported locale \<open>fr\<close>, is renamed to \<open>strings-strings.coffee\<close>, the
  message is written, and the deletion of the old path raises: the renamed file
  stays and the next entry, the unsupported \<open>strings-it.coffee\<close>, is never
  reached.
\<close>

theorem unsupported_entry_not_deleted:
  "main (\<lambda>fs. (0, fs)) (\<lambda>fs. (0, fs)) (\<lambda>fs. [''strings-fr-FR.coffee''])
        [''app/script/localization/strings-fr-FR.coffee'' \<mapsto> ''z.string.hello = 1\<newline>''] =
   Inr \<lparr>files = [''app/script/localization/strings-fr.coffee'' \<mapsto> ''z.string.hello = 1\<newline>''],
        stdout = []\<rparr> \<and>
   get_locale ''strings-strings-fr'' = Some ''fr'' \<and>
   main (\<lambda>fs. (0, fs)) (\<lambda>fs. (0, fs)) (\<lambda>fs. [''strings-strings-fr'', ''strings-it.coffee''])
        [''app/script/localization/strings-strings-fr'' \<mapsto> ''a'',
         ''app/script/localization/strings-it.coffee'' \<mapsto> ''b''] =
   Inl (ENOENT ''app/script/localization/strings-strings-fr'',
        \<lparr>files = [''app/script/localization/strings-it.coffee'' \<mapsto> ''b'',
                  ''app/script/localization/strings-strings.coffee'' \<mapsto> ''a''],
         stdout = [removing_message ''fr'' ''app/script/localization/strings-strings-fr'']\<rparr>)"
proof -
  have l1: "get_locale ''strings-fr-FR.coffee'' = None" by code_simp
  have l2: "get_locale ''strings-strings-fr'' = Some ''fr''" by code_simp
  have s: "''fr'' \<notin> set SUPPORTED_LOCALE" by (simp add: SUPPORTED_LOCALE_def)
  have m1: "main (\<lambda>fs. (0, fs)) (\<lambda>fs. (0, fs)) (\<lambda>fs. [''strings-fr-FR.coffee''])
        [''app/script/localization/strings-fr-FR.coffee'' \<mapsto> ''z.string.hello = 1\<newline>''] =
   Inr \<lparr>files = [''app/script/localization/strings-fr.coffee'' \<mapsto> ''z.string.hello = 1\<newline>''],
        stdout = []\<rparr>"
    by (simp add: main_def loop_body_def l1 remove_country_def shutil_move_def path_of_entry)
  have m2: "main (\<lambda>fs. (0, fs)) (\<lambda>fs. (0, fs)) (\<lambda>fs. [''strings-strings-fr'', ''strings-it.coffee''])
        [''app/script/localization/strings-strings-fr'' \<mapsto> ''a'',
         ''app/script/localization/strings-it.coffee'' \<mapsto> ''b''] =
   Inl (ENOENT ''app/script/localization/strings-strings-fr'',
        \<lparr>files = [''app/script/localization/strings-it.coffee'' \<mapsto> ''b'',
                  ''app/script/localization/strings-strings.coffee'' \<mapsto> ''a''],
         stdout = [removing_message ''fr'' ''app/script/localization/strings-strings-fr'']\<rparr>)"
    by (simp add: main_def loop_body_def l2 s remove_country_def shutil_move_def os_remove_def
        path_of_entry Let_def)
  from m1 l2 m2 show ?thesis by blast
qed

text \<open>
  Claim C5, evaluated on the code. \<open>strings-es-ES.coffee\<close>, whose locale after
  the renaming is the supported \<open>es\<close>, is renamed to \<open>strings-es.coffee\<close> with
  its content not rewritten. \<open>strings-strings-es.coffee\<close>, whose listed name
  gives the supported locale \<open>es\<close>, is renamed to \<open>strings-strings.coffee\<close>
  and opening the old path raises: the content is not rewritten and the run
  ends.
\<close>

theorem supported_entry_not_rewritten:
  "main (\<lambda>fs. (0, fs)) (\<lambda>fs. (0, fs)) (\<lambda>fs. [''strings-es-ES.coffee''])
        [''app/script/localization/strings-es-ES.coffee'' \<mapsto> ''z.string.hello = 1\<newline>''] =
   Inr \<lparr>files = [''app/script/localization/strings-es.coffee'' \<mapsto> ''z.string.hello = 1\<newline>''],
        stdout = []\<rparr> \<and>
   rewrite_content ''es'' ''z.string.hello = 1\<newline>'' = ''z.string.es.hello = 1'' \<and>
   get_locale ''strings-strings-es.coffee'' = Some ''es'' \<and>
   main (\<lambda>fs. (0, fs)) (\<lambda>fs. (0, fs)) (\<lambda>fs. [''strings-strings-es.coffee''])
        [''app/script/localization/strings-strings-es.coffee'' \<mapsto> ''z.string.hello = 1\<newline>''] =
   Inl (ENOENT ''app/script/localization/strings-strings-es.coffee'',
        \<lparr>files = [''app/script/localization/strings-strings.coffee'' \<mapsto> ''z.string.hello = 1\<newline>''],
         stdout = []\<rparr>)"
proof -
  have l1: "get_locale ''strings-es-ES.coffee'' = None" by code_simp
  have l2: "get_locale ''strings-strings-es.coffee'' = Some ''es''" by code_simp
  have s: "''es'' \<in> set SUPPORTED_LOCALE" by (simp add: SUPPORTED_LOCALE_def)
  have r: "rewrite_content ''es'' ''z.string.hello = 1\<newline>'' = ''z.string.es.hello = 1''"
    by code_simp
  have m1: "main (\<lambda>fs. (0, fs)) (\<lambda>fs. (0, fs)) (\<lambda>fs. [''strings-es-ES.coffee''])
        [''app/script/localization/strings-es-ES.coffee'' \<mapsto> ''z.string.hello = 1\<newline>''] =
   Inr \<lparr>files = [''app/script/localization/strings-es.coffee'' \<mapsto> ''z.string.hello = 1\<newline>''],
        stdout = []\<rparr>"
    by (simp add: main_def loop_body_def l1 remove_country_def shutil_move_def path_of_entry)
  have m2: "main (\<lambda>fs. (0, fs)) (\<lambda>fs. (0, fs)) (\<lambda>fs. [''strings-strings-es.coffee''])
        [''app/script/localization/strings-strings-es.coffee'' \<mapsto> ''z.string.hello = 1\<newline>''] =
   Inl (ENOENT ''app/script/localization/strings-strings-es.coffee'',
        \<lparr>files = [''app/script/localization/strings-strings.coffee'' \<mapsto> ''z.string.hello = 1\<newline>''],
         stdout = []\<rparr>)"
    by (simp add: main_def loop_body_def l2 s remove_country_def shutil_move_def read_file_def
        path_of_entry)
  from m1 r l2 m2 show ?thesis by blast
qed

text \<open>
  Claim C9, evaluated on the code. The name \<open>ab\<close> reduces to two characters,
  counts as a locale and the file is deleted with a message. The name \<open>--\<close>
  reduces to two characters and counts as a locale as well, but it has three
  (empty) components: the file is renamed to \<open>-.coffee\<close>, the message is
  written, and the deletion of the old path raises, so the file is not deleted.
\<close>

theorem two_character_name_not_deleted:
  "get_locale ''ab'' = Some ''ab'' \<and>
   main (\<lambda>fs. (0, fs)) (\<lambda>fs. (0, fs)) (\<lambda>fs. [''ab''])
        [''app/script/localization/ab'' \<mapsto> ''x''] =
   Inr \<lparr>files = Map.empty, stdout = [removing_message ''ab'' ''app/script/localization/ab'']\<rparr> \<and>
   get_locale ''--'' = Some ''--'' \<and>
   main (\<lambda>fs. (0, fs)) (\<lambda>fs. (0, fs)) (\<lambda>fs. [''--''])
        [''app/script/localization/--'' \<mapsto> ''x''] =
   Inl (ENOENT ''app/script/localization/--'',
        \<lparr>files = [''app/script/localization/-.coffee'' \<mapsto> ''x''],
         stdout = [removing_message ''--'' ''app/script/localization/--'']\<rparr>)"
proof -
  have l1: "get_locale ''ab'' = Some ''ab''" by code_simp
  have l2: "get_locale ''--'' = Some ''--''" by code_simp
  have s: "''ab'' \<notin> set SUPPORTED_LOCALE" "''--'' \<notin> set SUPPORTED_LOCALE"
    by (simp_all add: SUPPORTED_LOCALE_def)
  have m1: "main (\<lambda>fs. (0, fs)) (\<lambda>fs. (0, fs)) (\<lambda>fs. [''ab''])
        [''app/script/localization/ab'' \<mapsto> ''x''] =
   Inr \<lparr>files = Map.empty, stdout = [removing_message ''ab'' ''app/script/localization/ab'']\<rparr>"
    by (simp add: main_def loop_body_def l1 s remove_country_def os_remove_def path_of_entry)
  have m2: "main (\<lambda>fs. (0, fs)) (\<lambda>fs. (0, fs)) (\<lambda>fs. [''--''])
        [''app/script/localization/--'' \<mapsto> ''x''] =
   Inl (ENOENT ''app/script/localization/--'',
        \<lparr>files = [''app/script/localization/-.coffee'' \<mapsto> ''x''],
         stdout = [removing_message ''--'' ''app/script/localization/--'']\<rparr>)"
    by (simp add: main_def loop_body_def l2 s remove_country_def shutil_move_def os_remove_def
        path_of_entry Let_def)
  from l1 m1 l2 m2 show ?thesis by blast
qed

section \<open>The calls of the translation service\<close>

text \<open>
  Claim C7, as amended. The exit status of the upload and of the download is
  dropped: whatever the two calls return, the run goes on to list the directory
  the download left and to process every entry, exactly as a run in which both
  calls return status \<open>0\<close> and leave the same files.
\<close>

theorem exit_status_dropped:
  "main upload download listdir fs =
     run_loop (listdir (snd (download (snd (upload fs)))))
       \<lparr>files = snd (download (snd (upload fs))), stdout = []\<rparr> \<and>
   main (\<lambda>fs. (status1, up fs)) (\<lambda>fs. (status2, down fs)) listdir fs =
     main (\<lambda>fs. (0, up fs)) (\<lambda>fs. (0, down fs)) listdir fs"
  by (simp add: main_def split: prod.splits)

text \<open>
  A run in which both calls fail with status \<open>1\<close> still lists the directory,
  deletes the file of the unsupported locale \<open>fr\<close> and reports it.
\<close>

theorem failed_service_call_counterexample:
  "main (\<lambda>fs. (1, fs)) (\<lambda>fs. (1, fs)) (\<lambda>fs. [''strings-fr.coffee''])
        [''app/script/localization/strings-fr.coffee'' \<mapsto> ''z.string.title = 1\<newline>''] =
   Inr \<lparr>files = Map.empty,
        stdout = [removing_message ''fr'' ''app/script/localization/strings-fr.coffee'']\<rparr>"
proof -
  have l: "get_locale ''strings-fr.coffee'' = Some ''fr''" by code_simp
  have n: "length (str_split ''strings-fr.coffee'' CHR ''-'') \<noteq> 3" by simp
  have p: "os_path_join root ''strings-fr.coffee'' = ''app/script/localization/strings-fr.coffee''"
    by (simp add: os_path_join_def root_def)
  have s: "''fr'' \<notin> set SUPPORTED_LOCALE" by (simp add: SUPPORTED_LOCALE_def)
  show ?thesis
    by (simp add: main_def loop_body_def remove_country_other [OF n] l s p os_remove_def)
qed

end
